theory Spec2Isabelle
  imports Complex_Main "HOL-Library.Word"
begin

section \<open>Pixel buffers\<close>

text \<open>
  \<^verbatim>\<open>remove_grid_background\<close> of \<^verbatim>\<open>mobile/remove_background_simple.py\<close> opens an image,
  converts it to RGBA and works on \<^verbatim>\<open>data = np.array(img)\<close>, an array of shape
  (height, width, 4) of unsigned bytes, and on its copy \<^verbatim>\<open>result_data\<close>. The model starts
  at that array and ends at the pixels of the image the function returns; reading and
  writing the files is Pillow's. A pixel is the four bytes of one cell; an array is the
  list of its rows. An ndarray is rectangular by construction, which a list of lists is
  not: \<open>shaped h w d\<close> says that \<open>d\<close> is the content of an array of shape (h, w, 4), and
  the theorems below are about such buffers. \<open>height\<close> and \<open>width\<close> are
  \<^verbatim>\<open>data.shape[:2]\<close>; an array without rows has no width in this model, which makes no
  difference, since the function fails on it whatever its width.
\<close>

type_synonym byte = "8 word"

datatype pixel = Pixel (red: byte) (green: byte) (blue: byte) (alpha: byte)

type_synonym image = "pixel list list"

definition height :: "image \<Rightarrow> nat" where
  "height d = length d"

definition width :: "image \<Rightarrow> nat" where
  "width d = (case d of [] \<Rightarrow> 0 | row # _ \<Rightarrow> length row)"

definition shaped :: "nat \<Rightarrow> nat \<Rightarrow> image \<Rightarrow> bool" where
  "shaped h w d = (length d = h \<and> list_all (\<lambda>row. length row = w) d)"

text \<open>\<^verbatim>\<open>data[y, x]\<close> and \<^verbatim>\<open>result_data[y, x] = p\<close>. Every index the loops of the source
  produce is in range; the only reads that can be out of range are the corner samples of
  an array with a zero dimension, which \<open>remove_grid_background\<close> turns into the
  IndexError that numpy raises.\<close>

definition get_px :: "image \<Rightarrow> nat \<Rightarrow> nat \<Rightarrow> pixel" where
  "get_px d y x = d ! y ! x"

definition set_px :: "image \<Rightarrow> nat \<Rightarrow> nat \<Rightarrow> pixel \<Rightarrow> image" where
  "set_px d y x p = d[y := (d ! y)[x := p]]"

text \<open>The value \<^verbatim>\<open>[0, 0, 0, 0]\<close> that every clearing assignment of the source writes.\<close>

definition transparent :: pixel where
  "transparent = Pixel 0 0 0 0"

section \<open>Arithmetic of the source\<close>

text \<open>
  numpy computes the means, the colour distance and \<^verbatim>\<open>width * 0.6\<close> in float64. The
  quantities are modelled by the rationals they stand for, which decides every comparison
  of the source exactly as float64 does:
  \<^item> \<^verbatim>\<open>np.mean(corner_colors, axis=0)\<close> is a sum of four bytes divided by 4, and
    \<^verbatim>\<open>pixel[:3] - bg_color[:3]\<close>, its squares and their sum are multiples of 1/16 below
    \<open>2^18\<close>: all exact in float64. The square root is monotone and correctly rounded and
    \<open>sqrt 1600 = 40\<close>, so \<^verbatim>\<open>color_diff < tolerance\<close> holds exactly when the sum of squares
    is below \<open>tolerance\<^sup>2\<close> (lemma \<open>color_diff_sqrt\<close> is the same fact over the reals);
  \<^item> \<^verbatim>\<open>np.mean(pixel[:3])\<close> is an integer sum of at most 765 divided by 3; the thresholds
    180, 200, 220 and 240 are themselves such quotients, and the neighbouring quotients are
    1/3 away, so rounding never changes a comparison;
  \<^item> \<^verbatim>\<open>width * 0.6\<close>: the float64 product equals \<open>3 * width / 5\<close> when that is an
    integer, and is otherwise within \<open>width / 10^15\<close> of a number at least 1/5 away from
    every integer, so \<^verbatim>\<open>light_pixel_count > width * 0.6\<close> is the exact comparison for
    every image size that fits in memory.
\<close>

definition channel :: "byte \<Rightarrow> rat" where
  "channel v = of_nat (unat v)"

type_synonym colour = "rat \<times> rat \<times> rat"

text \<open>\<^verbatim>\<open>np.mean(pixel[:3])\<close>\<close>

definition mean3 :: "pixel \<Rightarrow> rat" where
  "mean3 p = (channel (red p) + channel (green p) + channel (blue p)) / 3"

text \<open>The four samples of lines 36-41: top-left, top-right, bottom-left, bottom-right.\<close>

definition corner_colors :: "nat \<Rightarrow> nat \<Rightarrow> image \<Rightarrow> pixel list" where
  "corner_colors h w data =
     [get_px data 0 0, get_px data 0 (w - 1), get_px data (h - 1) 0, get_px data (h - 1) (w - 1)]"

text \<open>\<^verbatim>\<open>bg_color = np.mean(corner_colors, axis=0)\<close>, of which only \<^verbatim>\<open>bg_color[:3]\<close> is read.\<close>

definition bg_color :: "pixel list \<Rightarrow> colour" where
  "bg_color cs =
     (sum_list (map (\<lambda>c. channel (red c)) cs) / of_nat (length cs),
      sum_list (map (\<lambda>c. channel (green c)) cs) / of_nat (length cs),
      sum_list (map (\<lambda>c. channel (blue c)) cs) / of_nat (length cs))"

text \<open>\<^verbatim>\<open>np.sum((pixel[:3] - bg_color[:3])**2)\<close>, the square of \<^verbatim>\<open>color_diff\<close>.\<close>

definition color_diff_sq :: "pixel \<Rightarrow> colour \<Rightarrow> rat" where
  "color_diff_sq p bg =
     (case bg of (br, bgr, bb) \<Rightarrow>
        (channel (red p) - br)\<^sup>2 + (channel (green p) - bgr)\<^sup>2 + (channel (blue p) - bb)\<^sup>2)"

definition tolerance :: rat where
  "tolerance = 40"

section \<open>Method 1: colour-based removal (lines 51-66)\<close>

definition mask_step :: "image \<Rightarrow> colour \<Rightarrow> nat \<Rightarrow> nat \<Rightarrow> image \<Rightarrow> image" where
  "mask_step data bg y x result =
     (let pixel = get_px data y x in
      if color_diff_sq pixel bg < tolerance\<^sup>2 then
        (if mean3 pixel > 180 then set_px result y x transparent else result)
      else if mean3 pixel > 240 then set_px result y x transparent
      else result)"

definition mask_pass :: "nat \<Rightarrow> nat \<Rightarrow> image \<Rightarrow> colour \<Rightarrow> image \<Rightarrow> image" where
  "mask_pass h w data bg result =
     fold (\<lambda>y. fold (\<lambda>x. mask_step data bg y x) [0..<w]) [0..<h] result"

section \<open>Method 2: grid line detection (lines 72-105)\<close>

text \<open>The inner loops of lines 84-86 and 102-104, run when a line has been found.\<close>

definition clear_row :: "nat \<Rightarrow> nat \<Rightarrow> image \<Rightarrow> image" where
  "clear_row w y result =
     fold (\<lambda>px r. if mean3 (get_px r y px) > 200 then set_px r y px transparent else r)
       [0..<w] result"

definition clear_col :: "nat \<Rightarrow> nat \<Rightarrow> image \<Rightarrow> image" where
  "clear_col h x result =
     fold (\<lambda>py r. if mean3 (get_px r py x) > 200 then set_px r py x transparent else r)
       [0..<h] result"

text \<open>The scan of one row (lines 75-87): \<open>xs\<close> are the columns still to visit and
  \<open>light_pixel_count\<close> the counter. The \<^verbatim>\<open>break\<close> is the branch without a recursive call.\<close>

fun scan_row :: "nat \<Rightarrow> nat \<Rightarrow> nat list \<Rightarrow> nat \<Rightarrow> image \<Rightarrow> image" where
  "scan_row w y [] light_pixel_count result = result"
| "scan_row w y (x # xs) light_pixel_count result =
     (let count =
        (if mean3 (get_px result y x) > 220 \<and> alpha (get_px result y x) > 0
         then light_pixel_count + 1 else 0)
      in if of_nat count > (of_nat w :: rat) * (6 / 10) then clear_row w y result
         else scan_row w y xs count result)"

text \<open>The scan of one column (lines 93-105).\<close>

fun scan_col :: "nat \<Rightarrow> nat \<Rightarrow> nat list \<Rightarrow> nat \<Rightarrow> image \<Rightarrow> image" where
  "scan_col h x [] light_pixel_count result = result"
| "scan_col h x (y # ys) light_pixel_count result =
     (let count =
        (if alpha (get_px result y x) > 0 \<and> mean3 (get_px result y x) > 220
         then light_pixel_count + 1 else 0)
      in if of_nat count > (of_nat h :: rat) * (6 / 10) then clear_col h x result
         else scan_col h x ys count result)"

definition suppress_rows :: "nat \<Rightarrow> nat \<Rightarrow> image \<Rightarrow> image" where
  "suppress_rows h w result = fold (\<lambda>y. scan_row w y [0..<w] 0) [0..<h] result"

definition suppress_cols :: "nat \<Rightarrow> nat \<Rightarrow> image \<Rightarrow> image" where
  "suppress_cols h w result = fold (\<lambda>x. scan_col h x [0..<h] 0) [0..<w] result"

section \<open>Method 3: preserving coloured regions (lines 109-125)\<close>

text \<open>
  \<^verbatim>\<open>r, g, b = pixel[:3]\<close> are numpy \<^verbatim>\<open>uint8\<close> scalars read from \<^verbatim>\<open>result_data\<close>, the buffer
  the earlier passes have written, not from \<^verbatim>\<open>data\<close>. Under numpy 2 the sum \<^verbatim>\<open>r + 10\<close>
  stays a \<^verbatim>\<open>uint8\<close> and wraps around, which is the addition of \<open>8 word\<close>; older versions
  of numpy promote the sum to a wider integer. The two readings differ only for a channel
  above 245, and no theorem below depends on the test at such a pixel. \<^verbatim>\<open>max - min\<close> never
  wraps.
\<close>

definition protect_step :: "image \<Rightarrow> nat \<Rightarrow> nat \<Rightarrow> image \<Rightarrow> image" where
  "protect_step data y x result =
     (let pixel = get_px result y x;
          r = red pixel; g = green pixel; b = blue pixel
      in if b > r + 10 \<and> b > g + 10 then
           (if alpha pixel = 0 then set_px result y x (get_px data y x) else result)
         else if max r (max g b) - min r (min g b) > 15 then
           (if alpha pixel = 0 then set_px result y x (get_px data y x) else result)
         else result)"

definition protect_pass :: "nat \<Rightarrow> nat \<Rightarrow> image \<Rightarrow> image \<Rightarrow> image" where
  "protect_pass h w data result =
     fold (\<lambda>y. fold (\<lambda>x. protect_step data y x) [0..<w]) [0..<h] result"

section \<open>The final filter (line 135)\<close>

text \<open>
  \<^verbatim>\<open>result_img.filter(ImageFilter.SMOOTH_MORE)\<close> is Pillow's, not this repository's.
  Pillow defines \<^verbatim>\<open>SMOOTH_MORE\<close> as the 5x5 kernel below with scale 100 and offset 0, and
  its convolution (\<^verbatim>\<open>ImagingFilter5x5\<close>) treats an RGBA image as follows: an image narrower
  or lower than the kernel is copied; otherwise the two outermost rows and columns are
  copied and every other pixel is replaced, in each of its four bands alike, by the
  weighted sum of the band over the 5x5 neighbourhood, divided by the scale, plus one half,
  cut to a byte by truncation.

  Pillow does this sum in float32, with the weights divided by the scale beforehand. Its
  error is far below 1/100, and the exact value \<open>s / 100 + 1 / 2\<close> is a multiple of 1/100,
  so the truncated float32 value is the truncated exact value \<open>(s + 50) div 100\<close> unless
  the exact value is itself an integer, that is, unless \<open>s mod 100 = 50\<close>. There the
  float32 sum may end just below the integer and truncate to one less. Whether it does
  depends on the 25 values of the neighbourhood and on how the platform rounds, and is
  not decided by anything in the source: it is the parameter \<open>below\<close> of \<open>convolve\<close>,
  which every theorem leaves arbitrary. \<open>never_below\<close> is the rounding under which the
  sum never ends below; the statements about one concrete image are written with it, and
  none of them meets a sum with \<open>s mod 100 = 50\<close>: their images are either smaller than
  the kernel, and copied, or filtered at sums that are not odd multiples of 50.
\<close>

definition kernel :: "nat list list" where
  "kernel =
     [[1, 1, 1, 1, 1],
      [1, 5, 5, 5, 1],
      [1, 5, 44, 5, 1],
      [1, 5, 5, 5, 1],
      [1, 1, 1, 1, 1]]"

text \<open>The values of one band in the 5x5 neighbourhood of a pixel, row by row.\<close>

definition window :: "(pixel \<Rightarrow> byte) \<Rightarrow> image \<Rightarrow> nat \<Rightarrow> nat \<Rightarrow> nat list list" where
  "window band im y x =
     map (\<lambda>dy. map (\<lambda>dx. unat (band (get_px im (y + dy - 2) (x + dx - 2)))) [0..<5]) [0..<5]"

definition weighted_sum :: "(pixel \<Rightarrow> byte) \<Rightarrow> image \<Rightarrow> nat \<Rightarrow> nat \<Rightarrow> nat" where
  "weighted_sum band im y x =
     sum_list (map (\<lambda>dy.
       sum_list (map (\<lambda>dx. kernel ! dy ! dx * unat (band (get_px im (y + dy - 2) (x + dx - 2))))
         [0..<5])) [0..<5])"

definition clip8 :: "nat \<Rightarrow> byte" where
  "clip8 n = of_nat (min 255 n)"

text \<open>Whether the float32 sum over a neighbourhood ends below its exact value, asked
  only where that value is an integer.\<close>

type_synonym rounding = "nat list list \<Rightarrow> bool"

definition never_below :: rounding where
  "never_below win = False"

definition convolve :: "rounding \<Rightarrow> (pixel \<Rightarrow> byte) \<Rightarrow> image \<Rightarrow> nat \<Rightarrow> nat \<Rightarrow> byte" where
  "convolve below band im y x =
     (let s = weighted_sum band im y x; q = (s + 50) div 100
      in clip8 (if s mod 100 = 50 \<and> below (window band im y x) then q - 1 else q))"

definition smooth_more :: "rounding \<Rightarrow> nat \<Rightarrow> nat \<Rightarrow> image \<Rightarrow> image" where
  "smooth_more below h w im =
     (if w < 5 \<or> h < 5 then im
      else map (\<lambda>y. map (\<lambda>x.
             if 2 \<le> y \<and> y < h - 2 \<and> 2 \<le> x \<and> x < w - 2
             then Pixel (convolve below red im y x) (convolve below green im y x)
                        (convolve below blue im y x) (convolve below alpha im y x)
             else get_px im y x) [0..<w]) [0..<h])"

section \<open>The pipeline (lines 11-141)\<close>

text \<open>
  The source has no check of its input and raises nothing itself. On a decoded array the
  one exception its own statements can raise is numpy's IndexError, at the corner samples
  of an array with a zero dimension (\<^verbatim>\<open>data[0, 0]\<close>, or \<^verbatim>\<open>data[0, width-1]\<close> with
  \<^verbatim>\<open>width-1 = -1\<close> on an empty axis). What \<^verbatim>\<open>Image.open\<close> does with a file it cannot
  decode is Pillow's and happens before there is an array; it is not part of this model.
\<close>

datatype error = IndexError

text \<open>The buffer handed to the final filter: methods 1 to 3 on \<^verbatim>\<open>result_data = data.copy()\<close>.\<close>

definition segment :: "nat \<Rightarrow> nat \<Rightarrow> image \<Rightarrow> image" where
  "segment h w data =
     protect_pass h w data
       (suppress_cols h w
         (suppress_rows h w
           (mask_pass h w data (bg_color (corner_colors h w data)) data)))"

text \<open>The pixels of the image the function returns, for the array \<open>data\<close> and the rounding
  \<open>below\<close> of the filter.\<close>

definition remove_grid_background :: "rounding \<Rightarrow> image \<Rightarrow> error + image" where
  "remove_grid_background below data =
     (let h = height data; w = width data in
      if h = 0 \<or> w = 0 then Inl IndexError
      else Inr (smooth_more below h w (segment h w data)))"

section \<open>What the loop bodies decide\<close>

text \<open>
  The conditions under which the bodies of the loops assign, read off the definitions
  above: \<open>cleared\<close> is the \<^verbatim>\<open>if\<close>/\<^verbatim>\<open>elif\<close> of method 1, \<open>restores\<close> the one of method 3,
  and \<open>run_found\<close> is the scan of one row or column on the list of its pixels, true when
  the scan reaches its \<^verbatim>\<open>break\<close>.
\<close>

definition cleared :: "colour \<Rightarrow> pixel \<Rightarrow> bool" where
  "cleared bg p = (if color_diff_sq p bg < tolerance\<^sup>2 then mean3 p > 180 else mean3 p > 240)"

definition restores :: "pixel \<Rightarrow> bool" where
  "restores p =
     (if blue p > red p + 10 \<and> blue p > green p + 10 then alpha p = 0
      else if max (red p) (max (green p) (blue p)) - min (red p) (min (green p) (blue p)) > 15
      then alpha p = 0 else False)"

fun run_found :: "nat \<Rightarrow> pixel list \<Rightarrow> nat \<Rightarrow> bool" where
  "run_found n [] c = False"
| "run_found n (p # ps) c =
     (let c' = (if mean3 p > 220 \<and> alpha p > 0 then c + 1 else 0)
      in if of_nat c' > (of_nat n :: rat) * (6 / 10) then True else run_found n ps c')"

section \<open>The line suppressor in words\<close>

text \<open>
  The running count after a list of pixels, for a test \<open>P\<close> of one pixel: it goes up by one
  at a pixel that passes the test and back to 0 at any other, so it is the number of
  pixels passing the test at the end of the list (lemma \<open>running_count_takeWhile\<close>). A line
  is found in a row or column of \<open>n\<close> pixels when the running count after some pixel
  exceeds \<open>0.6 * n\<close>. \<open>counts\<close> is the test of the source: the pixel is not transparent
  and its mean is above 220. \<open>counts_as_claimed\<close> is the test as claim C4 words it: the
  pixel is already transparent or its mean is above 220.
\<close>

definition running_count :: "(pixel \<Rightarrow> bool) \<Rightarrow> pixel list \<Rightarrow> nat" where
  "running_count P ps = foldl (\<lambda>c p. if P p then c + 1 else 0) 0 ps"

definition line_found :: "(pixel \<Rightarrow> bool) \<Rightarrow> nat \<Rightarrow> pixel list \<Rightarrow> bool" where
  "line_found P n ps =
     list_ex (\<lambda>k. of_nat (running_count P (take (Suc k) ps)) > (of_nat n :: rat) * (6 / 10))
       [0..<length ps]"

definition counts :: "pixel \<Rightarrow> bool" where
  "counts p = (alpha p > 0 \<and> mean3 p > 220)"

definition counts_as_claimed :: "pixel \<Rightarrow> bool" where
  "counts_as_claimed p = (alpha p = 0 \<or> mean3 p > 220)"

definition column :: "image \<Rightarrow> nat \<Rightarrow> pixel list" where
  "column d x = map (\<lambda>row. row ! x) d"

section \<open>The colour distance as the source writes it\<close>

text \<open>\<^verbatim>\<open>color_diff = np.sqrt(np.sum((pixel[:3] - bg_color[:3])**2))\<close>, over the reals.\<close>

definition color_diff :: "pixel \<Rightarrow> colour \<Rightarrow> real" where
  "color_diff p bg = sqrt (of_rat (color_diff_sq p bg))"

section \<open>Colours\<close>

text \<open>\<^verbatim>\<open>pixel[:3]\<close>, the colour of a pixel without its alpha.\<close>

definition rgb :: "pixel \<Rightarrow> byte \<times> byte \<times> byte" where
  "rgb p = (red p, green p, blue p)"

section \<open>Example images\<close>

text \<open>Black corners, a white pixel and a mid-grey pixel.\<close>

definition mask_example :: image where
  "mask_example =
     [[Pixel 0 0 0 255, Pixel 255 255 255 255],
      [Pixel 0 0 0 255, Pixel 200 200 200 255]]"

text \<open>A pale blue pixel, 20 above its red and green, on a white background.\<close>

definition blob_example :: image where
  "blob_example =
     [[Pixel 255 255 255 255, Pixel 255 255 255 255, Pixel 255 255 255 255],
      [Pixel 255 255 255 255, Pixel 235 235 255 255, Pixel 255 255 255 255],
      [Pixel 255 255 255 255, Pixel 255 255 255 255, Pixel 255 255 255 255]]"

text \<open>A dark blue pixel on a white background.\<close>

definition square_example :: image where
  "square_example =
     [[Pixel 255 255 255 255, Pixel 255 255 255 255, Pixel 255 255 255 255],
      [Pixel 255 255 255 255, Pixel 30 60 200 255, Pixel 255 255 255 255],
      [Pixel 255 255 255 255, Pixel 255 255 255 255, Pixel 255 255 255 255]]"

text \<open>Black rows around a row of a white, a light grey (230) and a darker grey (210) pixel.\<close>

definition gap_example :: image where
  "gap_example =
     [[Pixel 0 0 0 255, Pixel 0 0 0 255, Pixel 0 0 0 255],
      [Pixel 255 255 255 255, Pixel 230 230 230 255, Pixel 210 210 210 255],
      [Pixel 0 0 0 255, Pixel 0 0 0 255, Pixel 0 0 0 255]]"

text \<open>One row of two light grey pixels and a darker grey one, as a buffer of the line
  suppressor.\<close>

definition line_example :: image where
  "line_example = [[Pixel 230 230 230 255, Pixel 230 230 230 255, Pixel 210 210 210 255]]"

text \<open>An opaque black image with one dark red pixel above its centre.\<close>

definition blur_example :: image where
  "blur_example =
     [[Pixel 0 0 0 255, Pixel 0 0 0 255, Pixel 0 0 0 255, Pixel 0 0 0 255, Pixel 0 0 0 255],
      [Pixel 0 0 0 255, Pixel 0 0 0 255, Pixel 100 0 0 255, Pixel 0 0 0 255, Pixel 0 0 0 255],
      [Pixel 0 0 0 255, Pixel 0 0 0 255, Pixel 0 0 0 255, Pixel 0 0 0 255, Pixel 0 0 0 255],
      [Pixel 0 0 0 255, Pixel 0 0 0 255, Pixel 0 0 0 255, Pixel 0 0 0 255, Pixel 0 0 0 255],
      [Pixel 0 0 0 255, Pixel 0 0 0 255, Pixel 0 0 0 255, Pixel 0 0 0 255, Pixel 0 0 0 255]]"

text \<open>A dark grey row with a white pixel in the middle.\<close>

definition stripe_example :: image where
  "stripe_example = [[Pixel 10 10 10 255, Pixel 255 255 255 255, Pixel 10 10 10 255]]"

text \<open>An input whose only opaque pixel is a blue one in the centre, and a working buffer
  in which that pixel has lost its alpha.\<close>

definition restore_data :: image where
  "restore_data =
     [[transparent, transparent, transparent, transparent, transparent],
      [transparent, transparent, transparent, transparent, transparent],
      [transparent, transparent, Pixel 0 0 255 255, transparent, transparent],
      [transparent, transparent, transparent, transparent, transparent],
      [transparent, transparent, transparent, transparent, transparent]]"

definition restore_buffer :: image where
  "restore_buffer =
     [[transparent, transparent, transparent, transparent, transparent],
      [transparent, transparent, transparent, transparent, transparent],
      [transparent, transparent, Pixel 0 0 255 0, transparent, transparent],
      [transparent, transparent, transparent, transparent, transparent],
      [transparent, transparent, transparent, transparent, transparent]]"

text \<open>A uniform light grey image.\<close>

definition uniform_example :: image where
  "uniform_example =
     [[Pixel 230 230 230 255, Pixel 230 230 230 255, Pixel 230 230 230 255],
      [Pixel 230 230 230 255, Pixel 230 230 230 255, Pixel 230 230 230 255],
      [Pixel 230 230 230 255, Pixel 230 230 230 255, Pixel 230 230 230 255]]"

section \<open>Reading and writing pixels\<close>
lemma shaped_length: "shaped h w d \<Longrightarrow> length d = h"
  by (simp add: shaped_def)

lemma shaped_row: "shaped h w d \<Longrightarrow> y < h \<Longrightarrow> length (d ! y) = w"
  by (simp add: shaped_def list_all_length)

lemma shaped_set_px: "shaped h w d \<Longrightarrow> shaped h w (set_px d y x p)"
proof (cases "y < length d")
  case True
  assume "shaped h w d"
  with True show ?thesis
    by (auto simp: shaped_def set_px_def list_all_length nth_list_update)
next
  case False
  assume "shaped h w d"
  with False show ?thesis by (simp add: set_px_def list_update_beyond)
qed

lemma get_set_px:
  "shaped h w d \<Longrightarrow> y < h \<Longrightarrow> x < w \<Longrightarrow>
   get_px (set_px d y x p) y' x' = (if y' = y \<and> x' = x then p else get_px d y' x')"
  by (auto simp: shaped_def get_px_def set_px_def list_all_length nth_list_update)

lemma set_px_same: "set_px d y x (get_px d y x) = d"
  by (simp add: set_px_def get_px_def)

lemma fold_invariant:
  assumes "P s" and "\<And>i t. i \<in> set xs \<Longrightarrow> P t \<Longrightarrow> P (f i t)"
  shows "P (fold f xs s)"
  using assms by (induction xs arbitrary: s) auto

lemma fold_regions:
  fixes f :: "nat \<Rightarrow> image \<Rightarrow> image"
  assumes shape: "\<And>i t. i < n \<Longrightarrow> shaped h w t \<Longrightarrow> shaped h w (f i t)"
    and step: "\<And>i t y x. i < n \<Longrightarrow> shaped h w t \<Longrightarrow>
                get_px (f i t) y x = (if reg i y x then V i t y x else get_px t y x)"
    and local: "\<And>i t t' y x. i < n \<Longrightarrow> shaped h w t \<Longrightarrow> shaped h w t' \<Longrightarrow>
                (\<And>y' x'. reg i y' x' \<Longrightarrow> get_px t y' x' = get_px t' y' x') \<Longrightarrow>
                reg i y x \<Longrightarrow> V i t y x = V i t' y x"
    and disj: "\<And>i j y x. i < j \<Longrightarrow> j < n \<Longrightarrow> reg i y x \<Longrightarrow> \<not> reg j y x"
    and s: "shaped h w s"
  shows "m \<le> n \<Longrightarrow>
     shaped h w (fold f [0..<m] s) \<and>
     (\<forall>i<m. \<forall>y x. reg i y x \<longrightarrow> get_px (fold f [0..<m] s) y x = V i s y x) \<and>
     (\<forall>y x. (\<forall>i<m. \<not> reg i y x) \<longrightarrow> get_px (fold f [0..<m] s) y x = get_px s y x)"
proof (induction m)
  case 0
  show ?case using s by simp
next
  case (Suc m)
  let ?t = "fold f [0..<m] s"
  have m: "m < n" using Suc.prems by simp
  from Suc have sh: "shaped h w ?t"
    and prev: "\<And>i y x. i < m \<Longrightarrow> reg i y x \<Longrightarrow> get_px ?t y x = V i s y x"
    and rest: "\<And>y x. (\<forall>i<m. \<not> reg i y x) \<Longrightarrow> get_px ?t y x = get_px s y x"
    by auto
  have unf: "fold f [0..<Suc m] s = f m ?t" by simp
  have new: "V m ?t y x = V m s y x" if r: "reg m y x" for y x
  proof (rule local [OF m sh s _ r])
    fix y' x' assume "reg m y' x'"
    then have "\<forall>i<m. \<not> reg i y' x'" using disj m by blast
    then show "get_px ?t y' x' = get_px s y' x'" by (rule rest)
  qed
  have a: "shaped h w (f m ?t)" by (rule shape [OF m sh])
  have b: "get_px (f m ?t) y x = V i s y x" if "i < Suc m" "reg i y x" for i y x
  proof (cases "i = m")
    case True
    then show ?thesis using that new by (simp add: step [OF m sh])
  next
    case False
    then have im: "i < m" using that by simp
    then have "\<not> reg m y x" using disj [OF im m] that by blast
    then show ?thesis using prev [OF im that(2)] by (simp add: step [OF m sh])
  qed
  have c: "get_px (f m ?t) y x = get_px s y x" if "\<forall>i<Suc m. \<not> reg i y x" for y x
    using that rest by (simp add: step [OF m sh])
  show ?case unfolding unf using a b c by blast
qed


text \<open>Two nested loops over all pixels whose body rewrites its own pixel only.\<close>

lemma pixel_loops:
  fixes g :: "nat \<Rightarrow> nat \<Rightarrow> image \<Rightarrow> image"
  assumes shape: "\<And>y x t. y < h \<Longrightarrow> x < w \<Longrightarrow> shaped h w t \<Longrightarrow> shaped h w (g y x t)"
    and step: "\<And>y x t y' x'. y < h \<Longrightarrow> x < w \<Longrightarrow> shaped h w t \<Longrightarrow>
       get_px (g y x t) y' x' = (if y' = y \<and> x' = x then U y x (get_px t y x) else get_px t y' x')"
    and s: "shaped h w s"
  shows "shaped h w (fold (\<lambda>y. fold (g y) [0..<w]) [0..<h] s) \<and>
     (\<forall>y<h. \<forall>x<w.
        get_px (fold (\<lambda>y. fold (g y) [0..<w]) [0..<h] s) y x = U y x (get_px s y x))"
proof -
  let ?V = "\<lambda>(i::nat) t y x. U y x (get_px t y x)"
  have inner: "shaped h w (fold (g y) [0..<w] t) \<and>
      (\<forall>y' x'. get_px (fold (g y) [0..<w] t) y' x' =
         (if y' = y \<and> x' < w then U y' x' (get_px t y' x') else get_px t y' x'))"
    if y: "y < h" and t: "shaped h w t" for y t
  proof -
    let ?reg = "\<lambda>i y' x'. y' = y \<and> x' = (i::nat)"
    have r: "shaped h w (fold (g y) [0..<w] t) \<and>
      (\<forall>i<w. \<forall>y' x'. ?reg i y' x' \<longrightarrow> get_px (fold (g y) [0..<w] t) y' x' = ?V i t y' x') \<and>
      (\<forall>y' x'. (\<forall>i<w. \<not> ?reg i y' x') \<longrightarrow> get_px (fold (g y) [0..<w] t) y' x' = get_px t y' x')"
      apply (rule fold_regions [where n = w and reg = ?reg and V = ?V])
      subgoal using shape y by blast
      subgoal using step [OF y] by auto
      subgoal by simp
      subgoal by simp
      subgoal by (rule t)
      subgoal by simp
      done
    show ?thesis
    proof (intro conjI allI)
      show "shaped h w (fold (g y) [0..<w] t)" using r by blast
    next
      fix y' x'
      show "get_px (fold (g y) [0..<w] t) y' x' =
         (if y' = y \<and> x' < w then U y' x' (get_px t y' x') else get_px t y' x')"
      proof (cases "y' = y \<and> x' < w")
        case True
        then show ?thesis using r by simp
      next
        case False
        then have "\<forall>i<w. \<not> ?reg i y' x'" by auto
        with r have "get_px (fold (g y) [0..<w] t) y' x' = get_px t y' x'" by blast
        with False show ?thesis by auto
      qed
    qed
  qed
  let ?f = "\<lambda>y. fold (g y) [0..<w]"
  let ?reg = "\<lambda>i y' x'. y' = (i::nat) \<and> x' < w"
  have r: "shaped h w (fold ?f [0..<h] s) \<and>
      (\<forall>i<h. \<forall>y' x'. ?reg i y' x' \<longrightarrow> get_px (fold ?f [0..<h] s) y' x' = ?V i s y' x') \<and>
      (\<forall>y' x'. (\<forall>i<h. \<not> ?reg i y' x') \<longrightarrow> get_px (fold ?f [0..<h] s) y' x' = get_px s y' x')"
    apply (rule fold_regions [where n = h and reg = ?reg and V = ?V])
    subgoal using inner by blast
    subgoal using inner by auto
    subgoal by simp
    subgoal by simp
    subgoal by (rule s)
    subgoal by simp
    done
  then show ?thesis by simp
qed

section \<open>The passes, pixel by pixel\<close>

lemma mask_step_shaped: "shaped h w t \<Longrightarrow> shaped h w (mask_step data bg y x t)"
  by (simp add: mask_step_def Let_def shaped_set_px)

lemma mask_step_get:
  "shaped h w t \<Longrightarrow> y < h \<Longrightarrow> x < w \<Longrightarrow>
   get_px (mask_step data bg y x t) y' x' =
     (if y' = y \<and> x' = x
      then (if cleared bg (get_px data y x) then transparent else get_px t y x)
      else get_px t y' x')"
  by (simp add: mask_step_def Let_def cleared_def get_set_px)

lemma mask_pass_get:
  assumes "shaped h w s"
  shows "shaped h w (mask_pass h w data bg s) \<and>
    (\<forall>y<h. \<forall>x<w. get_px (mask_pass h w data bg s) y x =
       (if cleared bg (get_px data y x) then transparent else get_px s y x))"
  unfolding mask_pass_def
  by (rule pixel_loops [where U = "\<lambda>y x p. if cleared bg (get_px data y x) then transparent else p"])
     (simp_all add: mask_step_shaped mask_step_get assms)

lemma protect_step_shaped: "shaped h w t \<Longrightarrow> shaped h w (protect_step data y x t)"
  by (simp add: protect_step_def Let_def shaped_set_px)

lemma protect_step_get:
  "shaped h w t \<Longrightarrow> y < h \<Longrightarrow> x < w \<Longrightarrow>
   get_px (protect_step data y x t) y' x' =
     (if y' = y \<and> x' = x
      then (if restores (get_px t y x) then get_px data y x else get_px t y x)
      else get_px t y' x')"
  by (simp add: protect_step_def Let_def restores_def get_set_px)

lemma protect_pass_get:
  assumes "shaped h w s"
  shows "shaped h w (protect_pass h w data s) \<and>
    (\<forall>y<h. \<forall>x<w. get_px (protect_pass h w data s) y x =
       (if restores (get_px s y x) then get_px data y x else get_px s y x))"
  unfolding protect_pass_def
  by (rule pixel_loops [where U = "\<lambda>y x p. if restores p then get_px data y x else p"])
     (simp_all add: protect_step_shaped protect_step_get assms)

lemma clear_row_get:
  assumes t: "shaped h w t" and y: "y < h"
  shows "shaped h w (clear_row w y t) \<and>
    (\<forall>y' x'. get_px (clear_row w y t) y' x' =
       (if y' = y \<and> x' < w \<and> mean3 (get_px t y' x') > 200 then transparent
        else get_px t y' x'))"
proof -
  let ?f = "\<lambda>px r. if mean3 (get_px r y px) > 200 then set_px r y px transparent else r"
  let ?reg = "\<lambda>i y' x'. y' = y \<and> x' = (i::nat)"
  let ?V = "\<lambda>(i::nat) t y' x'. if mean3 (get_px t y' x') > 200 then transparent else get_px t y' x'"
  have r: "shaped h w (fold ?f [0..<w] t) \<and>
      (\<forall>i<w. \<forall>y' x'. ?reg i y' x' \<longrightarrow> get_px (fold ?f [0..<w] t) y' x' = ?V i t y' x') \<and>
      (\<forall>y' x'. (\<forall>i<w. \<not> ?reg i y' x') \<longrightarrow> get_px (fold ?f [0..<w] t) y' x' = get_px t y' x')"
    apply (rule fold_regions [where n = w and reg = ?reg and V = ?V])
    subgoal by (simp add: shaped_set_px)
    subgoal using y by (simp add: get_set_px)
    subgoal by simp
    subgoal by simp
    subgoal by (rule t)
    subgoal by simp
    done
  show ?thesis
  proof (intro conjI allI)
    show "shaped h w (clear_row w y t)" using r by (simp add: clear_row_def)
  next
    fix y' x'
    show "get_px (clear_row w y t) y' x' =
       (if y' = y \<and> x' < w \<and> mean3 (get_px t y' x') > 200 then transparent
        else get_px t y' x')"
    proof (cases "y' = y \<and> x' < w")
      case True
      then show ?thesis using r by (simp add: clear_row_def)
    next
      case False
      then have "\<forall>i<w. \<not> ?reg i y' x'" by auto
      with r have "get_px (fold ?f [0..<w] t) y' x' = get_px t y' x'" by blast
      with False show ?thesis by (auto simp: clear_row_def)
    qed
  qed
qed

lemma clear_col_get:
  assumes t: "shaped h w t" and x: "x < w"
  shows "shaped h w (clear_col h x t) \<and>
    (\<forall>y' x'. get_px (clear_col h x t) y' x' =
       (if x' = x \<and> y' < h \<and> mean3 (get_px t y' x') > 200 then transparent
        else get_px t y' x'))"
proof -
  let ?f = "\<lambda>py r. if mean3 (get_px r py x) > 200 then set_px r py x transparent else r"
  let ?reg = "\<lambda>i y' x'. x' = x \<and> y' = (i::nat)"
  let ?V = "\<lambda>(i::nat) t y' x'. if mean3 (get_px t y' x') > 200 then transparent else get_px t y' x'"
  have r: "shaped h w (fold ?f [0..<h] t) \<and>
      (\<forall>i<h. \<forall>y' x'. ?reg i y' x' \<longrightarrow> get_px (fold ?f [0..<h] t) y' x' = ?V i t y' x') \<and>
      (\<forall>y' x'. (\<forall>i<h. \<not> ?reg i y' x') \<longrightarrow> get_px (fold ?f [0..<h] t) y' x' = get_px t y' x')"
    apply (rule fold_regions [where n = h and reg = ?reg and V = ?V])
    subgoal by (simp add: shaped_set_px)
    subgoal using x by (simp add: get_set_px)
    subgoal by simp
    subgoal by simp
    subgoal by (rule t)
    subgoal by simp
    done
  show ?thesis
  proof (intro conjI allI)
    show "shaped h w (clear_col h x t)" using r by (simp add: clear_col_def)
  next
    fix y' x'
    show "get_px (clear_col h x t) y' x' =
       (if x' = x \<and> y' < h \<and> mean3 (get_px t y' x') > 200 then transparent
        else get_px t y' x')"
    proof (cases "x' = x \<and> y' < h")
      case True
      then show ?thesis using r by (simp add: clear_col_def)
    next
      case False
      then have "\<forall>i<h. \<not> ?reg i y' x'" by auto
      with r have "get_px (fold ?f [0..<h] t) y' x' = get_px t y' x'" by blast
      with False show ?thesis by (auto simp: clear_col_def)
    qed
  qed
qed

lemma scan_row_eq:
  "scan_row w y xs c t =
     (if run_found w (map (get_px t y) xs) c then clear_row w y t else t)"
  by (induction xs arbitrary: c) (simp_all add: Let_def)

lemma scan_col_eq:
  "scan_col h x ys c t =
     (if run_found h (map (\<lambda>y. get_px t y x) ys) c then clear_col h x t else t)"
  by (induction ys arbitrary: c) (simp_all add: Let_def conj_commute)

lemma suppress_rows_get:
  assumes s: "shaped h w s"
  shows "shaped h w (suppress_rows h w s) \<and>
    (\<forall>y<h. \<forall>x<w. get_px (suppress_rows h w s) y x =
       (if run_found w (map (get_px s y) [0..<w]) 0 \<and> mean3 (get_px s y x) > 200
        then transparent else get_px s y x))"
proof -
  let ?f = "\<lambda>y. scan_row w y [0..<w] 0"
  let ?reg = "\<lambda>i y' x'. y' = (i::nat) \<and> x' < w"
  let ?V = "\<lambda>(i::nat) t y' x'.
     if run_found w (map (get_px t y') [0..<w]) 0 \<and> mean3 (get_px t y' x') > 200
     then transparent else get_px t y' x'"
  have r: "shaped h w (fold ?f [0..<h] s) \<and>
      (\<forall>i<h. \<forall>y' x'. ?reg i y' x' \<longrightarrow> get_px (fold ?f [0..<h] s) y' x' = ?V i s y' x') \<and>
      (\<forall>y' x'. (\<forall>i<h. \<not> ?reg i y' x') \<longrightarrow> get_px (fold ?f [0..<h] s) y' x' = get_px s y' x')"
    apply (rule fold_regions [where n = h and reg = ?reg and V = ?V])
    subgoal by (simp add: scan_row_eq clear_row_get)
    subgoal by (simp add: scan_row_eq clear_row_get)
    subgoal for i t t' y x
    proof -
      assume eq: "\<And>y' x'. y' = i \<and> x' < w \<Longrightarrow> get_px t y' x' = get_px t' y' x'"
        and reg: "y = i \<and> x < w"
      have m: "map (get_px t y) [0..<w] = map (get_px t' y) [0..<w]"
        using eq reg by simp
      have g: "get_px t y x = get_px t' y x"
        using eq reg by simp
      show ?thesis by (simp only: m g)
    qed
    subgoal by simp
    subgoal by (rule s)
    subgoal by simp
    done
  then show ?thesis by (simp add: suppress_rows_def)
qed

lemma suppress_cols_get:
  assumes s: "shaped h w s"
  shows "shaped h w (suppress_cols h w s) \<and>
    (\<forall>y<h. \<forall>x<w. get_px (suppress_cols h w s) y x =
       (if run_found h (map (\<lambda>y. get_px s y x) [0..<h]) 0 \<and> mean3 (get_px s y x) > 200
        then transparent else get_px s y x))"
proof -
  let ?f = "\<lambda>x. scan_col h x [0..<h] 0"
  let ?reg = "\<lambda>i y' x'. x' = (i::nat) \<and> y' < h"
  let ?V = "\<lambda>(i::nat) t y' x'.
     if run_found h (map (\<lambda>y. get_px t y x') [0..<h]) 0 \<and> mean3 (get_px t y' x') > 200
     then transparent else get_px t y' x'"
  have r: "shaped h w (fold ?f [0..<w] s) \<and>
      (\<forall>i<w. \<forall>y' x'. ?reg i y' x' \<longrightarrow> get_px (fold ?f [0..<w] s) y' x' = ?V i s y' x') \<and>
      (\<forall>y' x'. (\<forall>i<w. \<not> ?reg i y' x') \<longrightarrow> get_px (fold ?f [0..<w] s) y' x' = get_px s y' x')"
    apply (rule fold_regions [where n = w and reg = ?reg and V = ?V])
    subgoal by (simp add: scan_col_eq clear_col_get)
    subgoal by (simp add: scan_col_eq clear_col_get)
    subgoal for i t t' y x
    proof -
      assume eq: "\<And>y' x'. x' = i \<and> y' < h \<Longrightarrow> get_px t y' x' = get_px t' y' x'"
        and reg: "x = i \<and> y < h"
      have m: "map (\<lambda>y. get_px t y x) [0..<h] = map (\<lambda>y. get_px t' y x) [0..<h]"
        using eq reg by simp
      have g: "get_px t y x = get_px t' y x"
        using eq reg by simp
      show ?thesis by (simp only: m g)
    qed
    subgoal by simp
    subgoal by (rule s)
    subgoal by simp
    done
  then show ?thesis by (simp add: suppress_cols_def)
qed

lemma run_found_iff:
  "run_found n ps c \<longleftrightarrow>
     (\<exists>k<length ps.
        of_nat (foldl (\<lambda>c p. if counts p then c + 1 else 0) c (take (Suc k) ps))
          > (of_nat n :: rat) * (6 / 10))"
proof (induction ps arbitrary: c)
  case Nil
  show ?case by simp
next
  case (Cons p ps)
  let ?st = "\<lambda>c p. if counts p then c + 1 else (0::nat)"
  have "(\<exists>k<length (p # ps). of_nat (foldl ?st c (take (Suc k) (p # ps))) > (of_nat n :: rat) * (6 / 10))
     \<longleftrightarrow> of_nat (?st c p) > (of_nat n :: rat) * (6 / 10) \<or>
         (\<exists>k<length ps. of_nat (foldl ?st (?st c p) (take (Suc k) ps)) > (of_nat n :: rat) * (6 / 10))"
    (is "?L \<longleftrightarrow> ?A \<or> ?B")
  proof
    assume ?L
    then obtain k where k: "k < length (p # ps)"
      "of_nat (foldl ?st c (take (Suc k) (p # ps))) > (of_nat n :: rat) * (6 / 10)" by blast
    show "?A \<or> ?B"
    proof (cases k)
      case 0
      with k show ?thesis by simp
    next
      case (Suc j)
      with k have "j < length ps"
        "of_nat (foldl ?st (?st c p) (take (Suc j) ps)) > (of_nat n :: rat) * (6 / 10)" by simp_all
      then show ?thesis by blast
    qed
  next
    assume "?A \<or> ?B"
    then show ?L
    proof
      assume ?A
      then have "of_nat (foldl ?st c (take (Suc 0) (p # ps))) > (of_nat n :: rat) * (6 / 10)" by simp
      then show ?L by blast
    next
      assume ?B
      then obtain j where j: "j < length ps"
        "of_nat (foldl ?st (?st c p) (take (Suc j) ps)) > (of_nat n :: rat) * (6 / 10)" by blast
      then have "Suc j < length (p # ps)"
        "of_nat (foldl ?st c (take (Suc (Suc j)) (p # ps))) > (of_nat n :: rat) * (6 / 10)" by simp_all
      then show ?L by blast
    qed
  qed
  moreover have "run_found n (p # ps) c \<longleftrightarrow> ?A \<or> run_found n ps (?st c p)"
    by (simp add: Let_def counts_def conj_commute)
  ultimately show ?case using Cons.IH [of "?st c p"] by simp
qed

lemma run_found_line_found: "run_found n ps 0 = line_found counts n ps"
  by (auto simp: run_found_iff line_found_def running_count_def list_ex_iff)

lemma running_count_takeWhile: "running_count P ps = length (takeWhile P (rev ps))"
proof -
  have gen: "foldl (\<lambda>c p. if P p then c + 1 else 0) c ps =
      (if list_all P ps then c + length ps else length (takeWhile P (rev ps)))" for c
  proof (induction ps arbitrary: c)
    case Nil
    show ?case by simp
  next
    case (Cons p ps)
    show ?case
    proof (cases "list_all P ps")
      case True
      then have "\<forall>x\<in>set (rev ps). P x" by (simp add: list_all_iff)
      then have "takeWhile P (rev ps @ [p]) = rev ps @ takeWhile P [p]"
        using takeWhile_append2 [of "rev ps" P "[p]"] by blast
      with True show ?thesis by (simp add: Cons.IH)
    next
      case False
      then obtain x where "x \<in> set (rev ps)" "\<not> P x" by (auto simp: list_all_iff)
      then have "takeWhile P (rev ps @ [p]) = takeWhile P (rev ps)"
        by (rule takeWhile_append1)
      with False show ?thesis by (simp add: Cons.IH)
    qed
  qed
  show ?thesis
  proof (cases "list_all P ps")
    case True
    then have tw: "takeWhile P (rev ps) = rev ps"
      by (simp add: list_all_iff)
    show ?thesis by (simp add: running_count_def gen True tw)
  next
    case False
    then show ?thesis by (simp add: running_count_def gen)
  qed
qed

section \<open>The colour distance\<close>

lemma color_diff_sqrt:
  "color_diff p bg < of_rat tolerance \<longleftrightarrow> color_diff_sq p bg < tolerance\<^sup>2"
proof -
  have "sqrt (of_rat (color_diff_sq p bg)) < sqrt ((40::real)\<^sup>2) \<longleftrightarrow>
        (of_rat (color_diff_sq p bg) :: real) < 40\<^sup>2"
    by (rule real_sqrt_less_iff)
  moreover have "(of_rat (color_diff_sq p bg) :: real) < 40\<^sup>2 \<longleftrightarrow> color_diff_sq p bg < 40\<^sup>2"
    using of_rat_less [of "color_diff_sq p bg" "40\<^sup>2", where ?'a = real] by simp
  ultimately show ?thesis
    by (simp add: color_diff_def tolerance_def)
qed

lemma color_diff_less_40: "color_diff p bg < 40 \<longleftrightarrow> color_diff_sq p bg < 1600"
  using color_diff_sqrt [of p bg] by (simp add: tolerance_def)

lemma cleared_iff:
  "cleared bg p \<longleftrightarrow>
     (color_diff p bg < of_rat tolerance \<and> mean3 p > 180) \<or> mean3 p > 240"
  by (auto simp: cleared_def color_diff_sqrt)

section \<open>The buffer before and after the last two steps\<close>

lemma restores_transparent: "\<not> restores transparent"
  by (simp add: restores_def transparent_def)

lemma protect_step_id:
  assumes "get_px t y x = transparent \<or> get_px t y x = get_px data y x"
  shows "protect_step data y x t = t"
  using assms
proof
  assume "get_px t y x = transparent"
  then show ?thesis by (simp add: protect_step_def Let_def transparent_def)
next
  assume "get_px t y x = get_px data y x"
  then have "set_px t y x (get_px data y x) = t"
    using set_px_same [of t y x] by simp
  then show ?thesis by (simp add: protect_step_def Let_def)
qed

lemma protect_pass_id:
  assumes "\<forall>y<h. \<forall>x<w. get_px t y x = transparent \<or> get_px t y x = get_px data y x"
  shows "protect_pass h w data t = t"
  unfolding protect_pass_def
proof (rule fold_invariant [where P = "\<lambda>s. s = t"])
  show "t = t" ..
next
  fix y s assume y: "y \<in> set [0..<h]" and s: "s = t"
  show "fold (protect_step data y) [0..<w] s = t"
  proof (rule fold_invariant [where P = "\<lambda>s. s = t"])
    show "s = t" by (rule s)
  next
    fix x u assume "x \<in> set [0..<w]" and "u = t"
    with y assms show "protect_step data y x u = t"
      by (simp add: protect_step_id)
  qed
qed

lemma suppressed_buffer:
  fixes bg :: colour
  assumes d: "shaped h w data"
  defines "r \<equiv> suppress_cols h w (suppress_rows h w (mask_pass h w data bg data))"
  shows "shaped h w r"
    and "\<forall>y<h. \<forall>x<w. get_px r y x = transparent \<or> get_px r y x = get_px data y x"
proof -
  let ?m = "mask_pass h w data bg data"
  let ?s = "suppress_rows h w ?m"
  note m = mask_pass_get [OF d, of data bg]
  from m have sm: "shaped h w ?m" by blast
  note s = suppress_rows_get [OF sm]
  from s have ss: "shaped h w ?s" by blast
  note c = suppress_cols_get [OF ss]
  show "shaped h w r" using c by (simp add: r_def)
  show "\<forall>y<h. \<forall>x<w. get_px r y x = transparent \<or> get_px r y x = get_px data y x"
    unfolding r_def using m s c by simp
qed

lemma segment_eq:
  "shaped h w data \<Longrightarrow>
   segment h w data =
     suppress_cols h w (suppress_rows h w (mask_pass h w data (bg_color (corner_colors h w data)) data))"
  using suppressed_buffer(2) [of h w data "bg_color (corner_colors h w data)"]
  by (simp add: segment_def protect_pass_id)

lemma segment_shaped: "shaped h w data \<Longrightarrow> shaped h w (segment h w data)"
  by (simp add: segment_eq suppressed_buffer(1))

lemma get_px_map:
  "y < h \<Longrightarrow> x < w \<Longrightarrow> get_px (map (\<lambda>y. map (\<lambda>x. F y x) [0..<w]) [0..<h]) y x = F y x"
  by (simp add: get_px_def)

lemma smooth_more_shaped: "shaped h w t \<Longrightarrow> shaped h w (smooth_more below h w t)"
  by (simp add: smooth_more_def shaped_def list_all_iff)

lemma smooth_more_get:
  "shaped h w t \<Longrightarrow> y < h \<Longrightarrow> x < w \<Longrightarrow>
   get_px (smooth_more below h w t) y x =
     (if 5 \<le> h \<and> 5 \<le> w \<and> 2 \<le> y \<and> y < h - 2 \<and> 2 \<le> x \<and> x < w - 2
      then Pixel (convolve below red t y x) (convolve below green t y x)
                 (convolve below blue t y x) (convolve below alpha t y x)
      else get_px t y x)"
  by (auto simp: smooth_more_def get_px_map)

lemma shaped_height: "shaped h w d \<Longrightarrow> height d = h"
  by (simp add: shaped_def height_def)

lemma shaped_width: "shaped h w d \<Longrightarrow> 0 < h \<Longrightarrow> width d = w"
  by (cases d) (auto simp: shaped_def width_def)

lemma remove_grid_background_eq:
  assumes "shaped h w data"
  shows "remove_grid_background below data =
     (if h = 0 \<or> w = 0 then Inl IndexError else Inr (smooth_more below h w (segment h w data)))"
proof (cases "h = 0")
  case True
  then show ?thesis using assms
    by (simp add: remove_grid_background_def shaped_height Let_def)
next
  case False
  then show ?thesis using assms
    by (simp add: remove_grid_background_def shaped_height shaped_width Let_def)
qed

section \<open>Evaluating the passes on a concrete image\<close>

lemma upt_2: "[0..<2] = [0, 1]"
  by (simp add: upt_rec)

lemma upt_3: "[0..<3] = [0, 1, 2]"
  by (simp add: upt_rec)

lemma upt_5: "[0..<5] = [0, 1, 2, 3, 4]"
  by (simp add: upt_rec)

lemmas pass_defs = mask_pass_def mask_step_def suppress_rows_def suppress_cols_def
  clear_row_def clear_col_def protect_pass_def protect_step_def
  bg_color_def corner_colors_def color_diff_sq_def tolerance_def mean3_def channel_def
  get_px_def set_px_def transparent_def Let_def power2_eq_square

lemmas filter_defs = smooth_more_def convolve_def weighted_sum_def kernel_def clip8_def Let_def

lemmas pipeline_defs = remove_grid_background_def height_def width_def segment_def

section \<open>The example images\<close>

lemma blob_example_shaped: "shaped 3 3 blob_example"
  by (simp add: shaped_def blob_example_def)

lemma mask_example_shaped: "shaped 2 2 mask_example"
  by (simp add: shaped_def mask_example_def)

lemma mask_example_out:
  "remove_grid_background below mask_example =
     Inr [[Pixel 0 0 0 255, Pixel 0 0 0 0], [Pixel 0 0 0 255, Pixel 200 200 200 255]]"
  by (simp add: pipeline_defs smooth_more_def mask_example_def pass_defs upt_2)

lemma blur_example_segment: "segment 5 5 blur_example = blur_example"
proof -
  have "mask_pass 5 5 blur_example (bg_color (corner_colors 5 5 blur_example)) blur_example
      = blur_example"
    by (simp add: blur_example_def pass_defs upt_5)
  moreover have "suppress_rows 5 5 blur_example = blur_example"
    by (simp add: blur_example_def pass_defs upt_5)
  moreover have "suppress_cols 5 5 blur_example = blur_example"
    by (simp add: blur_example_def pass_defs upt_5)
  moreover have "protect_pass 5 5 blur_example blur_example = blur_example"
    by (simp add: blur_example_def pass_defs upt_5)
  ultimately show ?thesis by (simp add: segment_def)
qed

text \<open>The filter on the examples, whatever its rounding: an image lower or narrower than 5
  is copied, and on \<open>blur_example\<close> no weighted sum is an odd multiple of 50.\<close>

lemma small_image_copied: "w < 5 \<or> h < 5 \<Longrightarrow> smooth_more below h w im = im"
  by (simp add: smooth_more_def)

lemma blur_example_smoothed:
  "smooth_more below 5 5 blur_example =
     [[Pixel 0 0 0 255, Pixel 0 0 0 255, Pixel 0 0 0 255, Pixel 0 0 0 255, Pixel 0 0 0 255],
      [Pixel 0 0 0 255, Pixel 0 0 0 255, Pixel 100 0 0 255, Pixel 0 0 0 255, Pixel 0 0 0 255],
      [Pixel 0 0 0 255, Pixel 0 0 0 255, Pixel 5 0 0 255, Pixel 0 0 0 255, Pixel 0 0 0 255],
      [Pixel 0 0 0 255, Pixel 0 0 0 255, Pixel 0 0 0 255, Pixel 0 0 0 255, Pixel 0 0 0 255],
      [Pixel 0 0 0 255, Pixel 0 0 0 255, Pixel 0 0 0 255, Pixel 0 0 0 255, Pixel 0 0 0 255]]"
  by (simp add: blur_example_def filter_defs get_px_def upt_5)

lemma square_example_shaped: "shaped 3 3 square_example"
  by (simp add: shaped_def square_example_def)

lemma list_all_get_px:
  "shaped h w d \<Longrightarrow> list_all (list_all P) d \<Longrightarrow> \<forall>y<h. \<forall>x<w. P (get_px d y x)"
  by (simp add: shaped_def list_all_length get_px_def)

section \<open>Colours that only depend on the first three channels\<close>

lemma mean3_rgb: "rgb p = (cr, cg, cb) \<Longrightarrow> mean3 p = (channel cr + channel cg + channel cb) / 3"
  by (simp add: rgb_def mean3_def)

lemma color_diff_sq_same:
  "rgb p = (cr, cg, cb) \<Longrightarrow> color_diff_sq p (channel cr, channel cg, channel cb) = 0"
  by (simp add: rgb_def color_diff_sq_def)

lemma corner_bg:
  assumes "list_all (\<lambda>p. rgb p = (cr, cg, cb)) (corner_colors h w data)"
  shows "bg_color (corner_colors h w data) = (channel cr, channel cg, channel cb)"
  using assms by (simp add: corner_colors_def bg_color_def rgb_def)

section \<open>The buffer handed to the filter, pixel by pixel\<close>

lemma segment_get:
  assumes d: "shaped h w data" and y: "y < h" and x: "x < w"
  shows "cleared (bg_color (corner_colors h w data)) (get_px data y x) \<Longrightarrow>
           get_px (segment h w data) y x = transparent"
    and "\<not> cleared (bg_color (corner_colors h w data)) (get_px data y x) \<Longrightarrow>
           mean3 (get_px data y x) \<le> 200 \<Longrightarrow>
           get_px (segment h w data) y x = get_px data y x"
proof -
  let ?bg = "bg_color (corner_colors h w data)"
  let ?m = "mask_pass h w data ?bg data"
  let ?s = "suppress_rows h w ?m"
  note m = mask_pass_get [OF d, of data ?bg]
  from m have sm: "shaped h w ?m" by blast
  note s = suppress_rows_get [OF sm]
  from s have ss: "shaped h w ?s" by blast
  note c = suppress_cols_get [OF ss]
  have seg: "segment h w data = suppress_cols h w ?s"
    by (rule segment_eq [OF d])
  show "cleared ?bg (get_px data y x) \<Longrightarrow> get_px (segment h w data) y x = transparent"
    unfolding seg using m s c y x by simp
  show "\<not> cleared ?bg (get_px data y x) \<Longrightarrow> mean3 (get_px data y x) \<le> 200 \<Longrightarrow>
           get_px (segment h w data) y x = get_px data y x"
    unfolding seg using m s c y x by simp
qed

section \<open>The filter\<close>

lemma weighted_sum_zero:
  assumes "\<And>dy dx. dy < 5 \<Longrightarrow> dx < 5 \<Longrightarrow> band (get_px t (y + dy - 2) (x + dx - 2)) = 0"
  shows "weighted_sum band t y x = 0"
  using assms by (simp add: weighted_sum_def)

lemma clip8_0: "clip8 0 = 0"
  by (simp add: clip8_def)

lemma smooth_more_transparent:
  assumes t: "shaped h w t"
    and all: "\<forall>y<h. \<forall>x<w. get_px t y x = transparent"
    and y: "y < h" and x: "x < w"
  shows "get_px (smooth_more below h w t) y x = transparent"
proof (cases "5 \<le> h \<and> 5 \<le> w \<and> 2 \<le> y \<and> y < h - 2 \<and> 2 \<le> x \<and> x < w - 2")
  case True
  have z: "weighted_sum band t y x = 0"
    if b: "band transparent = 0" for band :: "pixel \<Rightarrow> byte"
  proof (rule weighted_sum_zero)
    fix dy dx :: nat assume "dy < 5" "dx < 5"
    with True have "y + dy - 2 < h" "x + dx - 2 < w" by linarith+
    with all b show "band (get_px t (y + dy - 2) (x + dx - 2)) = 0" by simp
  qed
  have "convolve below band t y x = 0" if "band transparent = 0" for band :: "pixel \<Rightarrow> byte"
    using z [of band] that by (simp add: convolve_def clip8_0 Let_def)
  then show ?thesis
    using True by (simp add: smooth_more_get [OF t y x] transparent_def)
next
  case False
  then have "get_px (smooth_more below h w t) y x = get_px t y x"
    unfolding smooth_more_get [OF t y x] by (rule if_not_P)
  then show ?thesis using all y x by simp
qed

lemma unat_clip8: "unat (clip8 n) = min 255 n"
  by (simp add: clip8_def unat_of_nat min_def)

lemma tie_bound:
  fixes s :: nat
  assumes s: "44 * 255 \<le> s" and tie: "s mod 100 = 50"
  shows "112 \<le> (s + 50) div 100 - 1"
proof -
  define k where "k = s div 100"
  have k: "s = 100 * k + 50"
    using div_mult_mod_eq [of s 100] tie by (simp add: k_def)
  then have "(s + 50) div 100 = k + 1" by simp
  moreover have "112 \<le> k" using s k by linarith
  ultimately show ?thesis by simp
qed

lemma weighted_sum_centre: "44 * unat (band (get_px t y x)) \<le> weighted_sum band t y x"
  by (simp add: weighted_sum_def kernel_def upt_5)

section \<open>Rows and columns as lists\<close>

lemma row_pixels: "shaped h w r \<Longrightarrow> y < h \<Longrightarrow> map (get_px r y) [0..<w] = r ! y"
  by (rule nth_equalityI) (simp_all add: shaped_row get_px_def)

lemma column_pixels: "shaped h w r \<Longrightarrow> map (\<lambda>y. get_px r y x) [0..<h] = column r x"
  by (rule nth_equalityI) (simp_all add: shaped_length get_px_def column_def)

lemmas line_defs = line_found_def running_count_def counts_def counts_as_claimed_def
  column_def mean3_def channel_def get_px_def transparent_def

section \<open>Claims\<close>

text \<open>
  C1. The claim is that a pixel whose output alpha is 255 has its input colour, the final
  filter touching the alpha channel only. The filter of line 135 is applied to the RGBA
  image and so to all four bands. On \<open>blur_example\<close>, an opaque image that methods 1 to 3
  leave as it is, the centre pixel is black in the input and comes out as \<open>(5, 0, 0)\<close> with
  alpha 255: the red of the pixel above it has been mixed in with weight 5/100. The
  weighted sums at that pixel are 500, 0, 0 and 25500, so the rounding of the filter plays
  no part (lemma \<open>blur_example_smoothed\<close> is the same result for every rounding).
\<close>

theorem smoothing_blurs_rgb:
  "remove_grid_background never_below blur_example =
     Inr [[Pixel 0 0 0 255, Pixel 0 0 0 255, Pixel 0 0 0 255, Pixel 0 0 0 255, Pixel 0 0 0 255],
      [Pixel 0 0 0 255, Pixel 0 0 0 255, Pixel 100 0 0 255, Pixel 0 0 0 255, Pixel 0 0 0 255],
      [Pixel 0 0 0 255, Pixel 0 0 0 255, Pixel 5 0 0 255, Pixel 0 0 0 255, Pixel 0 0 0 255],
      [Pixel 0 0 0 255, Pixel 0 0 0 255, Pixel 0 0 0 255, Pixel 0 0 0 255, Pixel 0 0 0 255],
      [Pixel 0 0 0 255, Pixel 0 0 0 255, Pixel 0 0 0 255, Pixel 0 0 0 255, Pixel 0 0 0 255]]
   \<and> get_px blur_example 2 2 = Pixel 0 0 0 255"
proof -
  have hw: "height blur_example = 5" "width blur_example = 5"
    by (simp_all add: height_def width_def blur_example_def)
  have "remove_grid_background never_below blur_example = Inr (smooth_more never_below 5 5 blur_example)"
    by (simp add: remove_grid_background_def hw blur_example_segment)
  moreover note blur_example_smoothed [of never_below]
  moreover have "get_px blur_example 2 2 = Pixel 0 0 0 255"
    by (simp add: blur_example_def get_px_def)
  ultimately show ?thesis by simp
qed

text \<open>
  C2. The claim is that a pixel cleared by the earlier passes is restored when it is blue
  by more than 10 or has a channel spread above 15. The centre pixel of \<open>blob_example\<close>
  satisfies both tests in the input, the colour pass clears it with the white background,
  and it is transparent in the output: method 3 reads the colour from the buffer it has
  been cleared in, where the colour is \<open>(0, 0, 0)\<close> (see C5).
\<close>

theorem protector_restores_nothing:
  "blue (get_px blob_example 1 1) > red (get_px blob_example 1 1) + 10 \<and>
   blue (get_px blob_example 1 1) > green (get_px blob_example 1 1) + 10 \<and>
   max (red (get_px blob_example 1 1)) (max (green (get_px blob_example 1 1)) (blue (get_px blob_example 1 1)))
     - min (red (get_px blob_example 1 1)) (min (green (get_px blob_example 1 1)) (blue (get_px blob_example 1 1))) > 15 \<and>
   remove_grid_background never_below blob_example =
     Inr [[Pixel 0 0 0 0, Pixel 0 0 0 0, Pixel 0 0 0 0],
          [Pixel 0 0 0 0, Pixel 0 0 0 0, Pixel 0 0 0 0],
          [Pixel 0 0 0 0, Pixel 0 0 0 0, Pixel 0 0 0 0]]"
  by (simp add: pipeline_defs smooth_more_def blob_example_def pass_defs upt_3)

text \<open>
  C3. For every pixel of the input, the colour-distance pass clears the pixel (writes the
  transparent value) exactly when its Euclidean distance to the background colour is below
  the tolerance and its mean is above 180, or its mean is above 240; the \<^verbatim>\<open>if\<close>/\<^verbatim>\<open>elif\<close> of
  the source is this disjunction. A pixel that is not cleared keeps its input value. The
  statement holds for any background colour, the estimated one included.
\<close>

theorem mask_pass_iff:
  assumes "shaped h w data" and "y < h" and "x < w"
  shows "mask_step data bg y x result =
           (if (color_diff (get_px data y x) bg < of_rat tolerance \<and> mean3 (get_px data y x) > 180)
               \<or> mean3 (get_px data y x) > 240
            then set_px result y x transparent else result)
       \<and> get_px (mask_pass h w data bg data) y x =
           (if (color_diff (get_px data y x) bg < of_rat tolerance \<and> mean3 (get_px data y x) > 180)
               \<or> mean3 (get_px data y x) > 240
            then transparent else get_px data y x)"
proof
  show "mask_step data bg y x result =
           (if (color_diff (get_px data y x) bg < of_rat tolerance \<and> mean3 (get_px data y x) > 180)
               \<or> mean3 (get_px data y x) > 240
            then set_px result y x transparent else result)"
    by (auto simp: mask_step_def Let_def color_diff_sqrt)
next
  from mask_pass_get [OF assms(1), of data bg] assms(2,3)
  show "get_px (mask_pass h w data bg data) y x =
           (if (color_diff (get_px data y x) bg < of_rat tolerance \<and> mean3 (get_px data y x) > 180)
               \<or> mean3 (get_px data y x) > 240
            then transparent else get_px data y x)"
    by (simp add: cleared_iff)
qed

theorem mask_pass_iff_witness:
  "shaped 2 2 mask_example \<and>
   get_px (mask_pass 2 2 mask_example (bg_color (corner_colors 2 2 mask_example)) mask_example) 0 1
     = transparent \<and>
   get_px (mask_pass 2 2 mask_example (bg_color (corner_colors 2 2 mask_example)) mask_example) 1 1
     = Pixel 200 200 200 255"
  using mask_pass_iff [of 2 2 mask_example 0 1 "bg_color (corner_colors 2 2 mask_example)"]
        mask_pass_iff [of 2 2 mask_example 1 1 "bg_color (corner_colors 2 2 mask_example)"]
  by (simp add: mask_example_def shaped_def get_px_def mean3_def channel_def color_diff_less_40
      color_diff_sq_def bg_color_def corner_colors_def tolerance_def power2_eq_square)

text \<open>
  C4 as it is stated fails. After the colour pass the middle row of \<open>gap_example\<close> is a
  transparent pixel, a light grey one (mean 230) and a darker one (mean 210). If a
  transparent pixel raised the running count, as the claim has it, the count would reach 2
  of 3 at the second pixel, a line would be found and the second pixel cleared. The source
  counts a pixel only when it is not transparent: the count is reset at the first pixel,
  no line is found and the second pixel stays opaque, also in the output.
\<close>

theorem line_suppressor_counterexample:
  "mask_pass 3 3 gap_example (bg_color (corner_colors 3 3 gap_example)) gap_example =
     [[Pixel 0 0 0 255, Pixel 0 0 0 255, Pixel 0 0 0 255],
      [Pixel 0 0 0 0, Pixel 230 230 230 255, Pixel 210 210 210 255],
      [Pixel 0 0 0 255, Pixel 0 0 0 255, Pixel 0 0 0 255]] \<and>
   line_found counts_as_claimed 3 [Pixel 0 0 0 0, Pixel 230 230 230 255, Pixel 210 210 210 255] \<and>
   mean3 (Pixel 230 230 230 255) > 200 \<and>
   get_px (suppress_rows 3 3
     [[Pixel 0 0 0 255, Pixel 0 0 0 255, Pixel 0 0 0 255],
      [Pixel 0 0 0 0, Pixel 230 230 230 255, Pixel 210 210 210 255],
      [Pixel 0 0 0 255, Pixel 0 0 0 255, Pixel 0 0 0 255]]) 1 1 = Pixel 230 230 230 255 \<and>
   remove_grid_background never_below gap_example =
     Inr [[Pixel 0 0 0 255, Pixel 0 0 0 255, Pixel 0 0 0 255],
      [Pixel 0 0 0 0, Pixel 230 230 230 255, Pixel 210 210 210 255],
      [Pixel 0 0 0 255, Pixel 0 0 0 255, Pixel 0 0 0 255]]"
proof -
  have "line_found counts_as_claimed 3
      [Pixel 0 0 0 0, Pixel 230 230 230 255, Pixel 210 210 210 255]"
    by (simp add: line_defs upt_3)
  moreover have "mean3 (Pixel 230 230 230 255) > 200"
    by (simp add: mean3_def channel_def)
  moreover have "mask_pass 3 3 gap_example (bg_color (corner_colors 3 3 gap_example)) gap_example =
     [[Pixel 0 0 0 255, Pixel 0 0 0 255, Pixel 0 0 0 255],
      [Pixel 0 0 0 0, Pixel 230 230 230 255, Pixel 210 210 210 255],
      [Pixel 0 0 0 255, Pixel 0 0 0 255, Pixel 0 0 0 255]]"
    by (simp add: gap_example_def pass_defs upt_3)
  moreover have "get_px (suppress_rows 3 3
     [[Pixel 0 0 0 255, Pixel 0 0 0 255, Pixel 0 0 0 255],
      [Pixel 0 0 0 0, Pixel 230 230 230 255, Pixel 210 210 210 255],
      [Pixel 0 0 0 255, Pixel 0 0 0 255, Pixel 0 0 0 255]]) 1 1 = Pixel 230 230 230 255"
    by (simp add: pass_defs upt_3)
  moreover have "remove_grid_background never_below gap_example =
     Inr [[Pixel 0 0 0 255, Pixel 0 0 0 255, Pixel 0 0 0 255],
      [Pixel 0 0 0 0, Pixel 230 230 230 255, Pixel 210 210 210 255],
      [Pixel 0 0 0 255, Pixel 0 0 0 255, Pixel 0 0 0 255]]"
    by (simp add: pipeline_defs smooth_more_def gap_example_def pass_defs upt_3)
  ultimately show ?thesis by blast
qed

text \<open>
  C4, as amended. In the row pass the running count goes up at every pixel that is not
  transparent and whose mean is above 220, and back to 0 at any other pixel, a transparent
  one included. When the count exceeds 0.6 of the width, every pixel of that row whose mean
  is above 200 is set to \<open>(0, 0, 0, 0)\<close>, and no other pixel changes. The column pass does
  the same with the columns and 0.6 of the height.
\<close>

theorem line_suppressor:
  assumes r: "shaped h w r" and y: "y < h" and x: "x < w"
  shows "get_px (suppress_rows h w r) y x =
           (if line_found counts w (r ! y) \<and> mean3 (get_px r y x) > 200
            then transparent else get_px r y x)
       \<and> get_px (suppress_cols h w r) y x =
           (if line_found counts h (column r x) \<and> mean3 (get_px r y x) > 200
            then transparent else get_px r y x)"
  using suppress_rows_get [OF r] suppress_cols_get [OF r] y x
  by (simp add: run_found_line_found row_pixels [OF r] column_pixels [OF r])

theorem line_suppressor_witness:
  "shaped 1 3 line_example \<and>
   line_found counts 3 (line_example ! 0) \<and>
   get_px (suppress_rows 1 3 line_example) 0 2 = transparent \<and>
   \<not> line_found counts 1 (column line_example 2) \<and>
   get_px (suppress_cols 1 3 line_example) 0 2 = Pixel 210 210 210 255"
proof -
  have sh: "shaped 1 3 line_example"
    by (simp add: shaped_def line_example_def)
  have a: "line_found counts 3 (line_example ! 0)"
    by (simp add: line_example_def line_defs upt_3)
  have b: "\<not> line_found counts 1 (column line_example 2)"
    by (simp add: line_example_def line_defs)
  have c: "get_px line_example 0 2 = Pixel 210 210 210 255"
    by (simp add: line_example_def get_px_def)
  have d: "mean3 (Pixel 210 210 210 255) > 200"
    by (simp add: mean3_def channel_def)
  from line_suppressor [OF sh, of 0 2] sh a b c d show ?thesis by simp
qed

text \<open>
  C5. For every input image, method 3 leaves the working buffer as it finds it. Every
  pixel of the buffer that methods 1 and 2 hand over is either the transparent value
  \<open>(0, 0, 0, 0)\<close>, on which neither test of method 3 holds, or still the pixel of the
  input, which the restoring assignment writes back unchanged.
\<close>

theorem protector_identity:
  assumes "shaped h w data"
  shows "protect_pass h w data (suppress_cols h w (suppress_rows h w (mask_pass h w data bg data)))
           = suppress_cols h w (suppress_rows h w (mask_pass h w data bg data))
       \<and> (\<forall>y<h. \<forall>x<w.
            get_px (suppress_cols h w (suppress_rows h w (mask_pass h w data bg data))) y x = transparent
          \<or> get_px (suppress_cols h w (suppress_rows h w (mask_pass h w data bg data))) y x
              = get_px data y x)
       \<and> \<not> restores transparent"
  using suppressed_buffer(2) [OF assms, of bg] protect_pass_id [of h w _ data] restores_transparent
  by blast

theorem protector_identity_witness:
  "shaped 3 3 blob_example \<and>
   protect_pass 3 3 blob_example
     (suppress_cols 3 3 (suppress_rows 3 3
       (mask_pass 3 3 blob_example (bg_color (corner_colors 3 3 blob_example)) blob_example)))
   = suppress_cols 3 3 (suppress_rows 3 3
       (mask_pass 3 3 blob_example (bg_color (corner_colors 3 3 blob_example)) blob_example)) \<and>
   get_px (suppress_cols 3 3 (suppress_rows 3 3
       (mask_pass 3 3 blob_example (bg_color (corner_colors 3 3 blob_example)) blob_example))) 1 1
   = transparent"
proof -
  have "get_px (suppress_cols 3 3 (suppress_rows 3 3
       (mask_pass 3 3 blob_example (bg_color (corner_colors 3 3 blob_example)) blob_example))) 1 1
     = transparent"
    by (simp add: blob_example_def pass_defs upt_3)
  with protector_identity [OF blob_example_shaped, of "bg_color (corner_colors 3 3 blob_example)"]
    blob_example_shaped
  show ?thesis by blast
qed

text \<open>
  C6. A pixel that is opaque when method 3 has run, one that method 3 has restored
  included, is never transparent in the output: the only later step is the filter, which
  leaves the pixel at the border as it is and elsewhere gives it at least 44/100 of its
  own alpha, so at least 112 under every rounding of the filter.
\<close>

theorem restored_not_rezeroed:
  assumes r: "shaped h w r" and y: "y < h" and x: "x < w"
    and opaque: "alpha (get_px (protect_pass h w data r) y x) = 255"
  shows "alpha (get_px (smooth_more below h w (protect_pass h w data r)) y x) \<noteq> 0
       \<and> 112 \<le> unat (alpha (get_px (smooth_more below h w (protect_pass h w data r)) y x))"
proof -
  let ?t = "protect_pass h w data r"
  have t: "shaped h w ?t" using protect_pass_get [OF r] by blast
  have "112 \<le> unat (alpha (get_px (smooth_more below h w ?t) y x))"
  proof (cases "5 \<le> h \<and> 5 \<le> w \<and> 2 \<le> y \<and> y < h - 2 \<and> 2 \<le> x \<and> x < w - 2")
    case True
    then have "alpha (get_px (smooth_more below h w ?t) y x) = convolve below alpha ?t y x"
      by (simp add: smooth_more_get [OF t y x])
    moreover have s: "44 * 255 \<le> weighted_sum alpha ?t y x"
      using weighted_sum_centre [of alpha ?t y x] opaque by simp
    have "112 \<le> (weighted_sum alpha ?t y x + 50) div 100"
      using s by simp
    moreover have "112 \<le> (weighted_sum alpha ?t y x + 50) div 100 - 1"
      if "weighted_sum alpha ?t y x mod 100 = 50"
      using s that by (rule tie_bound)
    ultimately show ?thesis by (simp add: convolve_def unat_clip8 Let_def)
  next
    case False
    then have "get_px (smooth_more below h w ?t) y x = get_px ?t y x"
      unfolding smooth_more_get [OF t y x] by (rule if_not_P)
    then show ?thesis using opaque by simp
  qed
  moreover from this have "alpha (get_px (smooth_more below h w ?t) y x) \<noteq> 0"
    by auto
  ultimately show ?thesis by simp
qed

theorem restored_not_rezeroed_witness:
  "shaped 5 5 restore_buffer \<and>
   alpha (get_px restore_buffer 2 2) = 0 \<and>
   alpha (get_px (protect_pass 5 5 restore_data restore_buffer) 2 2) = 255 \<and>
   alpha (get_px (smooth_more never_below 5 5 (protect_pass 5 5 restore_data restore_buffer)) 2 2) \<noteq> 0"
proof -
  have sh: "shaped 5 5 restore_buffer"
    by (simp add: shaped_def restore_buffer_def)
  have a: "alpha (get_px restore_buffer 2 2) = 0"
    by (simp add: get_px_def restore_buffer_def)
  have p: "protect_pass 5 5 restore_data restore_buffer = restore_data"
    by (simp add: restore_data_def restore_buffer_def protect_pass_def protect_step_def
        get_px_def set_px_def transparent_def Let_def upt_5)
  have o: "alpha (get_px (protect_pass 5 5 restore_data restore_buffer) 2 2) = 255"
    unfolding p by (simp add: restore_data_def get_px_def)
  from restored_not_rezeroed [OF sh _ _ o] sh a o show ?thesis by simp
qed

text \<open>
  C7 as it is stated fails. The corners of \<open>stripe_example\<close> are one dark grey and the
  white pixel between them is far from that colour. The grey pixels stay opaque, because
  the colour pass clears light pixels only, and the white pixel is cleared, because its
  mean is above 240.
\<close>

theorem corner_background_counterexample:
  "corner_colors 1 3 stripe_example =
     [Pixel 10 10 10 255, Pixel 10 10 10 255, Pixel 10 10 10 255, Pixel 10 10 10 255] \<and>
   \<not> color_diff_sq (Pixel 255 255 255 255) (bg_color (corner_colors 1 3 stripe_example))
       < tolerance\<^sup>2 \<and>
   remove_grid_background never_below stripe_example =
     Inr [[Pixel 10 10 10 255, Pixel 0 0 0 0, Pixel 10 10 10 255]]"
  by (simp add: pipeline_defs smooth_more_def stripe_example_def pass_defs upt_3)

text \<open>
  C7, as amended. If the four corners have one colour whose mean is above 180, every
  pixel of exactly that colour is \<open>(0, 0, 0, 0)\<close> in the buffer handed to the final filter,
  and every pixel that is not within the tolerance of the background colour and whose
  mean is at most 200 has its input value there. The output has the same pixels wherever
  the filter copies: everywhere in an image lower or narrower than 5, and in the two
  outermost rows and columns otherwise.
\<close>

theorem corner_background:
  assumes d: "shaped h w data" and h: "0 < h" and w: "0 < w"
    and corners: "list_all (\<lambda>p. rgb p = (cr, cg, cb)) (corner_colors h w data)"
    and light: "(channel cr + channel cg + channel cb) / 3 > 180"
  shows "(\<forall>y<h. \<forall>x<w. rgb (get_px data y x) = (cr, cg, cb) \<longrightarrow>
            get_px (segment h w data) y x = transparent)
     \<and> (\<forall>y<h. \<forall>x<w.
            \<not> color_diff (get_px data y x) (bg_color (corner_colors h w data)) < of_rat tolerance
            \<and> mean3 (get_px data y x) \<le> 200 \<longrightarrow>
            get_px (segment h w data) y x = get_px data y x)
     \<and> (\<exists>out. remove_grid_background below data = Inr out \<and>
            (\<forall>y<h. \<forall>x<w.
               \<not> (5 \<le> h \<and> 5 \<le> w \<and> 2 \<le> y \<and> y < h - 2 \<and> 2 \<le> x \<and> x < w - 2) \<longrightarrow>
               get_px out y x = get_px (segment h w data) y x))"
proof (intro conjI allI impI)
  let ?bg = "bg_color (corner_colors h w data)"
  have bg: "?bg = (channel cr, channel cg, channel cb)"
    by (rule corner_bg [OF corners])
  fix y x assume y: "y < h" and x: "x < w"
  {
    assume "rgb (get_px data y x) = (cr, cg, cb)"
    then have "cleared ?bg (get_px data y x)"
      using light by (simp add: cleared_def bg color_diff_sq_same mean3_rgb tolerance_def)
    then show "get_px (segment h w data) y x = transparent"
      by (rule segment_get(1) [OF d y x])
  }
  {
    assume "\<not> color_diff (get_px data y x) ?bg < of_rat tolerance \<and> mean3 (get_px data y x) \<le> 200"
    then have "\<not> cleared ?bg (get_px data y x)" and "mean3 (get_px data y x) \<le> 200"
      by (auto simp: cleared_iff)
    then show "get_px (segment h w data) y x = get_px data y x"
      by (rule segment_get(2) [OF d y x])
  }
next
  have sh: "shaped h w (segment h w data)"
    by (rule segment_shaped [OF d])
  have "remove_grid_background below data = Inr (smooth_more below h w (segment h w data))"
    using h w by (simp add: remove_grid_background_eq [OF d])
  moreover have "\<forall>y<h. \<forall>x<w.
      \<not> (5 \<le> h \<and> 5 \<le> w \<and> 2 \<le> y \<and> y < h - 2 \<and> 2 \<le> x \<and> x < w - 2) \<longrightarrow>
      get_px (smooth_more below h w (segment h w data)) y x = get_px (segment h w data) y x"
    using smooth_more_get [OF sh] by simp
  ultimately show "\<exists>out. remove_grid_background below data = Inr out \<and>
            (\<forall>y<h. \<forall>x<w.
               \<not> (5 \<le> h \<and> 5 \<le> w \<and> 2 \<le> y \<and> y < h - 2 \<and> 2 \<le> x \<and> x < w - 2) \<longrightarrow>
               get_px out y x = get_px (segment h w data) y x)"
    by blast
qed

theorem corner_background_witness:
  "shaped 3 3 square_example \<and>
   list_all (\<lambda>p. rgb p = (255, 255, 255)) (corner_colors 3 3 square_example) \<and>
   (channel 255 + channel 255 + channel 255) / 3 > 180 \<and>
   get_px (segment 3 3 square_example) 0 0 = transparent \<and>
   get_px (segment 3 3 square_example) 1 1 = Pixel 30 60 200 255 \<and>
   (\<exists>out. remove_grid_background never_below square_example = Inr out \<and>
      get_px out 0 0 = transparent \<and> get_px out 1 1 = Pixel 30 60 200 255)"
proof -
  note sh = square_example_shaped
  have c: "list_all (\<lambda>p. rgb p = (255, 255, 255)) (corner_colors 3 3 square_example)"
    by (simp add: corner_colors_def get_px_def square_example_def rgb_def)
  have l: "(channel 255 + channel 255 + channel 255) / 3 > (180::rat)"
    by (simp add: channel_def)
  have p00: "rgb (get_px square_example 0 0) = (255, 255, 255)"
    by (simp add: get_px_def square_example_def rgb_def)
  have p11: "\<not> color_diff (get_px square_example 1 1) (bg_color (corner_colors 3 3 square_example))
        < of_rat tolerance \<and> mean3 (get_px square_example 1 1) \<le> 200"
    by (simp add: color_diff_less_40 square_example_def pass_defs)
  have g11: "get_px square_example 1 1 = Pixel 30 60 200 255"
    by (simp add: get_px_def square_example_def)
  note t = corner_background [OF sh _ _ c l, where below = never_below]
  from t p00 have a: "get_px (segment 3 3 square_example) 0 0 = transparent"
    by simp
  from t p11 g11 have b: "get_px (segment 3 3 square_example) 1 1 = Pixel 30 60 200 255"
    by simp
  from t obtain out where o: "remove_grid_background never_below square_example = Inr out"
    and "\<forall>y<3. \<forall>x<3. get_px out y x = get_px (segment 3 3 square_example) y x"
    by auto
  with a b have "get_px out 0 0 = transparent \<and> get_px out 1 1 = Pixel 30 60 200 255"
    by simp
  with sh c l a b o show ?thesis by blast
qed

text \<open>
  C9 as it is stated fails: a uniformly black opaque image comes out as it went in.
\<close>

theorem uniform_dark_counterexample:
  "remove_grid_background never_below [[Pixel 0 0 0 255, Pixel 0 0 0 255], [Pixel 0 0 0 255, Pixel 0 0 0 255]]
     = Inr [[Pixel 0 0 0 255, Pixel 0 0 0 255], [Pixel 0 0 0 255, Pixel 0 0 0 255]]"
  by (simp add: pipeline_defs smooth_more_def pass_defs upt_2)

text \<open>
  C9, as amended. If every pixel of the input has one colour whose mean is above 180,
  every pixel of the output is \<open>(0, 0, 0, 0)\<close>.
\<close>

theorem uniform_light_image:
  assumes d: "shaped h w data" and h: "0 < h" and w: "0 < w"
    and uni: "\<forall>y<h. \<forall>x<w. rgb (get_px data y x) = (cr, cg, cb)"
    and light: "(channel cr + channel cg + channel cb) / 3 > 180"
  shows "\<exists>out. remove_grid_background below data = Inr out \<and> shaped h w out \<and>
           (\<forall>y<h. \<forall>x<w. get_px out y x = transparent)"
proof -
  let ?bg = "bg_color (corner_colors h w data)"
  have "list_all (\<lambda>p. rgb p = (cr, cg, cb)) (corner_colors h w data)"
    using uni h w by (simp add: corner_colors_def)
  then have bg: "?bg = (channel cr, channel cg, channel cb)"
    by (rule corner_bg)
  have cl: "cleared ?bg (get_px data y x)" if "y < h" "x < w" for y x
    using that uni light
    by (simp add: cleared_def bg color_diff_sq_same mean3_rgb tolerance_def)
  have seg: "\<forall>y<h. \<forall>x<w. get_px (segment h w data) y x = transparent"
    using segment_get(1) [OF d] cl by blast
  have sh: "shaped h w (segment h w data)"
    by (rule segment_shaped [OF d])
  have out: "remove_grid_background below data = Inr (smooth_more below h w (segment h w data))"
    using h w by (simp add: remove_grid_background_eq [OF d])
  moreover have "shaped h w (smooth_more below h w (segment h w data))"
    by (rule smooth_more_shaped [OF sh])
  moreover have "\<forall>y<h. \<forall>x<w. get_px (smooth_more below h w (segment h w data)) y x = transparent"
    using smooth_more_transparent [OF sh seg] by blast
  ultimately show ?thesis by blast
qed

theorem uniform_light_image_witness:
  "shaped 3 3 uniform_example \<and>
   list_all (list_all (\<lambda>p. rgb p = (230, 230, 230))) uniform_example \<and>
   (channel 230 + channel 230 + channel 230) / 3 > 180 \<and>
   (\<exists>out. remove_grid_background never_below uniform_example = Inr out \<and>
      get_px out 0 0 = transparent \<and> get_px out 1 1 = transparent \<and> get_px out 2 2 = transparent)"
proof -
  have sh: "shaped 3 3 uniform_example"
    by (simp add: shaped_def uniform_example_def)
  have u: "list_all (list_all (\<lambda>p. rgb p = (230, 230, 230))) uniform_example"
    by (simp add: uniform_example_def rgb_def)
  have l: "(channel 230 + channel 230 + channel 230) / 3 > 180"
    by (simp add: channel_def)
  from uniform_light_image [OF sh _ _ list_all_get_px [OF sh u] l, where below = never_below]
  obtain out where "remove_grid_background never_below uniform_example = Inr out"
    and "\<forall>y<3. \<forall>x<3. get_px out y x = transparent" by auto
  then have "remove_grid_background never_below uniform_example = Inr out \<and>
      get_px out 0 0 = transparent \<and> get_px out 1 1 = transparent \<and> get_px out 2 2 = transparent"
    by simp
  with sh u l show ?thesis by blast
qed

text \<open>
  C10. Whenever the call returns an image, it has the height and the width of the input
  (and is rectangular like it).
\<close>

theorem dimensions_preserved:
  assumes "shaped h w data" and "remove_grid_background below data = Inr out"
  shows "shaped h w out \<and> height out = height data \<and> width out = width data"
proof -
  from assms have pos: "0 < h" "0 < w" and out: "out = smooth_more below h w (segment h w data)"
    by (auto simp: remove_grid_background_eq split: if_splits)
  have "shaped h w out"
    unfolding out by (intro smooth_more_shaped segment_shaped assms(1))
  with assms(1) pos show ?thesis
    by (simp add: shaped_height shaped_width)
qed

theorem dimensions_preserved_witness:
  "shaped 2 2 mask_example \<and>
   remove_grid_background never_below mask_example =
     Inr [[Pixel 0 0 0 255, Pixel 0 0 0 0], [Pixel 0 0 0 255, Pixel 200 200 200 255]] \<and>
   shaped 2 2 [[Pixel 0 0 0 255, Pixel 0 0 0 0], [Pixel 0 0 0 255, Pixel 200 200 200 255]] \<and>
   height [[Pixel 0 0 0 255, Pixel 0 0 0 0], [Pixel 0 0 0 255, Pixel 200 200 200 255]]
     = height mask_example \<and>
   width [[Pixel 0 0 0 255, Pixel 0 0 0 0], [Pixel 0 0 0 255, Pixel 200 200 200 255]]
     = width mask_example"
  using dimensions_preserved [OF mask_example_shaped mask_example_out]
    mask_example_shaped mask_example_out
  by blast

end
